theory Spec2Isabelle
  imports
    Main
    "HOL-Library.Sublist"
    "HOL-Library.Char_ord"
    "HOL-Library.List_Lexorder"
    "HOL-Library.Multiset"
begin

section \<open>Python strings\<close>

text \<open>
  A Python \<open>str\<close> is modelled as a \<^typ>\<open>string\<close>; a \<^typ>\<open>char\<close> stands for the Unicode code
  point of the same number, so the model covers the texts over the code points 0 to 255.
  The character classes below are the ones CPython uses on that range.
\<close>

definition code_point :: "char \<Rightarrow> nat" where
  "code_point c = of_char c"

definition is_space :: "char \<Rightarrow> bool" where
  \<comment> \<open>\<open>str.isspace\<close>: the characters \<open>str.strip()\<close> and \<open>str.split()\<close> treat as blank\<close>
  "is_space c =
     (let n = code_point c
      in (9 \<le> n \<and> n \<le> 13) \<or> (28 \<le> n \<and> n \<le> 32) \<or> n = 133 \<or> n = 160)"

definition is_int_space :: "char \<Rightarrow> bool" where
  \<comment> \<open>the blanks \<open>int()\<close> skips around a number (it does not skip the codes 28 to 31)\<close>
  "is_int_space c =
     (let n = code_point c
      in (9 \<le> n \<and> n \<le> 13) \<or> n = 32 \<or> n = 133 \<or> n = 160)"

definition is_digit :: "char \<Rightarrow> bool" where
  "is_digit c = (let n = code_point c in 48 \<le> n \<and> n \<le> 57)"

definition is_word :: "char \<Rightarrow> bool" where
  \<comment> \<open>the class \<open>\w\<close> of \<open>re\<close> on \<open>str\<close> patterns: alphanumeric or underscore\<close>
  "is_word c =
     (let n = code_point c
      in (48 \<le> n \<and> n \<le> 57) \<or> (65 \<le> n \<and> n \<le> 90) \<or> n = 95 \<or> (97 \<le> n \<and> n \<le> 122)
         \<or> n = 170 \<or> n = 178 \<or> n = 179 \<or> n = 181 \<or> n = 185 \<or> n = 186
         \<or> (188 \<le> n \<and> n \<le> 190) \<or> (192 \<le> n \<and> n \<le> 214) \<or> (216 \<le> n \<and> n \<le> 246)
         \<or> 248 \<le> n)"

definition char_lower :: "char \<Rightarrow> char" where
  "char_lower c =
     (let n = code_point c
      in if (65 \<le> n \<and> n \<le> 90) \<or> (192 \<le> n \<and> n \<le> 214) \<or> (216 \<le> n \<and> n \<le> 222)
         then char_of (n + 32) else c)"

definition str_lower :: "string \<Rightarrow> string" where
  "str_lower s = map char_lower s"

definition str_strip :: "string \<Rightarrow> string" where
  "str_strip s = rev (dropWhile is_space (rev (dropWhile is_space s)))"

text \<open>\<open>s.split()\<close>: the maximal runs of non-blank characters; \<open>w\<close> is the run being read.\<close>

fun split_ws :: "string \<Rightarrow> string \<Rightarrow> string list" where
  "split_ws w [] = (if w = [] then [] else [w])"
| "split_ws w (c # cs) =
     (if is_space c then (if w = [] then split_ws [] cs else w # split_ws [] cs)
      else split_ws (w @ [c]) cs)"

definition str_split :: "string \<Rightarrow> string list" where
  "str_split s = split_ws [] s"

fun str_join :: "string \<Rightarrow> string list \<Rightarrow> string" where
  "str_join sep [] = []"
| "str_join sep [w] = w"
| "str_join sep (w # ws) = w @ sep @ str_join sep ws"

definition startswith :: "string \<Rightarrow> string \<Rightarrow> bool" where
  "startswith s p = prefix p s"

definition endswith :: "string \<Rightarrow> string \<Rightarrow> bool" where
  "endswith s p = suffix p s"

definition str_in :: "string \<Rightarrow> string \<Rightarrow> bool" where
  \<comment> \<open>\<open>p in s\<close>\<close>
  "str_in p s = sublist p s"

text \<open>\<open>s.split("_", 1)[0]\<close>: the text before the first underscore, all of \<open>s\<close> if it has none.\<close>

definition before_underscore :: "string \<Rightarrow> string" where
  "before_underscore s = takeWhile (\<lambda>c. c \<noteq> CHR ''_'') s"




subsection \<open>Integers and text\<close>

definition digit_val :: "char \<Rightarrow> nat" where
  "digit_val c = code_point c - 48"

definition digits_val :: "string \<Rightarrow> nat" where
  "digits_val ds = foldl (\<lambda>a c. 10 * a + digit_val c) 0 ds"

definition int_strip :: "string \<Rightarrow> string" where
  "int_strip s = rev (dropWhile is_int_space (rev (dropWhile is_int_space s)))"

text \<open>
  \<open>int(s)\<close>: blanks around, an optional sign, then one or more decimal digits; \<open>None\<close> is
  the \<open>ValueError\<close>. Digit grouping by underscores is left out: every text parsed here was
  cut at its first underscore. The interpreter's limit on the number of digits is not
  modelled.
\<close>

definition py_int :: "string \<Rightarrow> int option" where
  "py_int s =
     (let t = int_strip s;
          neg = (t \<noteq> [] \<and> hd t = CHR ''-'');
          ds = (if t \<noteq> [] \<and> (hd t = CHR ''-'' \<or> hd t = CHR ''+'') then tl t else t)
      in if ds \<noteq> [] \<and> list_all is_digit ds
         then Some (if neg then - int (digits_val ds) else int (digits_val ds))
         else None)"

definition digit_char :: "nat \<Rightarrow> char" where
  "digit_char d = char_of (48 + d)"

fun nat_digits :: "nat \<Rightarrow> string" where
  "nat_digits n = (if n < 10 then [digit_char n] else nat_digits (n div 10) @ [digit_char (n mod 10)])"

declare nat_digits.simps [simp del]

definition py_str :: "int \<Rightarrow> string" where
  \<comment> \<open>\<open>str(i)\<close> of an integer\<close>
  "py_str i = (if i < 0 then CHR ''-'' # nat_digits (nat (- i)) else nat_digits (nat i))"

section \<open>The notes directory\<close>

text \<open>
  The directory \<open>NOTES_DIR\<close> is a flat list of named regular files, in the order
  \<open>os.listdir\<close> reports them. What the operating system answers for a file is part of
  the file:
  \<^item> \<open>readable = False\<close>: opening it for reading raises, or its bytes do not decode;
  \<^item> \<open>writable = False\<close>: opening it for writing raises, and the file stays as it is;
  \<^item> \<open>breaks_after = Some k\<close>: a write that has opened (and so emptied) the file raises
    after \<open>k\<close> characters have reached it, as on a full disk;
  \<^item> \<open>removable = False\<close>: \<open>os.remove\<close> raises and the file stays, as in a directory
    that cannot be written.

  \<open>Other_Exception\<close> stands for every exception of these calls on a file that is there
  (\<open>PermissionError\<close>, \<open>IsADirectoryError\<close>, \<open>UnicodeDecodeError\<close>, the \<open>OSError\<close> of a full
  disk): the handlers of the program catch \<open>Exception\<close> and do not tell them apart.
\<close>

datatype exn = ValueError | FileNotFoundError | Other_Exception

record note_file =
  content :: string
  readable :: bool
  writable :: bool
  breaks_after :: "nat option"
  removable :: bool

type_synonym store = "(string \<times> note_file) list"

definition fs_read :: "store \<Rightarrow> string \<Rightarrow> exn + string" where
  \<comment> \<open>\<open>open(path, "r").read()\<close>\<close>
  "fs_read st name =
     (case map_of st name of
        None \<Rightarrow> Inl FileNotFoundError
      | Some f \<Rightarrow> if readable f then Inr (content f) else Inl Other_Exception)"

definition set_content :: "store \<Rightarrow> string \<Rightarrow> string \<Rightarrow> store" where
  "set_content st name text =
     map (\<lambda>(n, g). if n = name then (n, g\<lparr>content := text\<rparr>) else (n, g)) st"

text \<open>
  \<open>open(path, "w").write(text)\<close>, with the directory afterwards and the exception raised, if
  any. A name with a NUL or a path separator cannot be opened in a flat directory. A new
  file is created at the end of the listing. An existing file that opens is emptied first,
  so a write that breaks leaves only the characters that reached it.
\<close>

definition fs_write :: "store \<Rightarrow> string \<Rightarrow> string \<Rightarrow> store \<times> exn option" where
  "fs_write st name text =
     (if CHR 0x00 \<in> set name then (st, Some ValueError)
      else if name = [] \<or> CHR ''/'' \<in> set name then (st, Some FileNotFoundError)
      else
        (case map_of st name of
           None \<Rightarrow>
             (st @ [(name, \<lparr>content = text, readable = True, writable = True,
                            breaks_after = None, removable = True\<rparr>)], None)
         | Some f \<Rightarrow>
             if \<not> writable f then (st, Some Other_Exception)
             else
               (case breaks_after f of
                  None \<Rightarrow> (set_content st name text, None)
                | Some k \<Rightarrow> (set_content st name (take k text), Some Other_Exception))))"


section \<open>Note helpers\<close>

definition list_note_files :: "store \<Rightarrow> string list" where
  "list_note_files st =
     filter (\<lambda>f. endswith f ''.md'' \<and> \<not> startswith f ''.'') (map fst st)"

text \<open>The loop of \<open>get_next_id\<close>: \<open>ids\<close> grows by every prefix that \<open>int\<close> accepts.\<close>

fun collect_ids :: "string list \<Rightarrow> int list \<Rightarrow> int list" where
  "collect_ids [] ids = ids"
| "collect_ids (fname # rest) ids =
     (case py_int (before_underscore fname) of
        Some note_id \<Rightarrow> collect_ids rest (ids @ [note_id])
      | None \<Rightarrow> collect_ids rest ids)"

definition get_next_id :: "store \<Rightarrow> string" where
  "get_next_id st =
     (let ids = collect_ids (list_note_files st) []
      in py_str (if ids \<noteq> [] then fold max (tl ids) (hd ids) + 1 else 1))"

text \<open>
  The allocator as the specification words it: the greatest integer prefix plus one,
  or one when no filename has an integer prefix.
\<close>

definition parsed_ids :: "store \<Rightarrow> int list" where
  "parsed_ids st = List.map_filter (\<lambda>f. py_int (before_underscore f)) (list_note_files st)"

definition spec_next_id :: "store \<Rightarrow> int" where
  "spec_next_id st = (if parsed_ids st = [] then 1 else Max (set (parsed_ids st)) + 1)"

definition generate_filename :: "string \<Rightarrow> string \<Rightarrow> string" where
  "generate_filename note_id title =
     (let slug = take 30 (str_join ''_'' (str_split (str_strip title)))
      in note_id @ ''_'' @ slug @ ''.md'')"

definition extract_id_from_filename :: "string \<Rightarrow> string" where
  "extract_id_from_filename filename = before_underscore filename"

definition link_token :: "string \<Rightarrow> string" where
  \<comment> \<open>the f-string \<open>[[{note_id}]]\<close>\<close>
  "link_token note_id = ''[['' @ note_id @ '']]''"

text \<open>The loop of \<open>find_backlinks\<close>; a file whose read raises is passed over.\<close>

fun backlinks_loop :: "store \<Rightarrow> string \<Rightarrow> string list \<Rightarrow> string list \<Rightarrow> string list" where
  "backlinks_loop st note_id [] backlinks = backlinks"
| "backlinks_loop st note_id (fname # rest) backlinks =
     (case fs_read st fname of
        Inl e \<Rightarrow> backlinks_loop st note_id rest backlinks
      | Inr text \<Rightarrow>
          if str_in (link_token note_id) text
          then backlinks_loop st note_id rest (backlinks @ [fname])
          else backlinks_loop st note_id rest backlinks)"

definition find_backlinks :: "store \<Rightarrow> string \<Rightarrow> string list" where
  "find_backlinks st note_id = backlinks_loop st note_id (list_note_files st) []"

text \<open>
  \<open>re.findall(r"#\w+", s)\<close>: the matches from left to right, each a hash sign with the
  longest run of word characters after it, the search resuming behind the match.
\<close>

function findall_tags :: "string \<Rightarrow> string list" where
  "findall_tags [] = []"
| "findall_tags (c # cs) =
     (if c = CHR ''#'' \<and> takeWhile is_word cs \<noteq> []
      then (c # takeWhile is_word cs) # findall_tags (dropWhile is_word cs)
      else findall_tags cs)"
  by pat_completeness auto
termination
  by (relation "measure length") (auto simp: le_imp_less_Suc length_dropWhile_le)

fun tags_loop :: "store \<Rightarrow> string list \<Rightarrow> string set \<Rightarrow> string set" where
  "tags_loop st [] tags = tags"
| "tags_loop st (fname # rest) tags =
     (case fs_read st fname of
        Inl e \<Rightarrow> tags_loop st rest tags
      | Inr text \<Rightarrow> tags_loop st rest (tags \<union> set (findall_tags text)))"

definition extract_tags :: "store \<Rightarrow> string list" where
  "extract_tags st = sorted_list_of_set (tags_loop st (list_note_files st) {})"

section \<open>The application\<close>

text \<open>
  Of the window, the state keeps the directory, the sidebar listing and the open note:
  \<open>current_file\<close> and \<open>current_id\<close> are set and cleared together, so they are one
  optional pair (file name, note id). The editor text, the backlink box and the tag box
  do not influence the directory and are left out. Answers of the dialogs and the clock
  are arguments; the dialogs shown are returned.
\<close>

record app =
  notes_dir :: store
  sidebar :: "string list"
  current_note :: "(string \<times> string) option"

datatype dialog =
    Warning_No_File
  | Info_Note_Created string
  | Info_Deleted string
  | Error_Dialog exn

text \<open>
  \<open>sorted(files, key=lambda x: int(x.split("_", 1)[0]))\<close>: every key is computed first, so
  one prefix that is no integer raises; the sort is stable.
\<close>

definition sort_by_id :: "string list \<Rightarrow> exn + string list" where
  "sort_by_id files =
     (if list_all (\<lambda>x. py_int (before_underscore x) \<noteq> None) files
      then Inr (sort_key (\<lambda>x. the (py_int (before_underscore x))) files)
      else Inl ValueError)"

definition refresh_list :: "(string \<Rightarrow> bool) option \<Rightarrow> app \<Rightarrow> exn option \<times> app" where
  "refresh_list filter_func a =
     (case sort_by_id (list_note_files (notes_dir a)) of
        Inl e \<Rightarrow> (Some e, a\<lparr>sidebar := []\<rparr>)
      | Inr files \<Rightarrow>
          (None, a\<lparr>sidebar := filter (\<lambda>f. case filter_func of None \<Rightarrow> True | Some p \<Rightarrow> p f) files\<rparr>))"

definition note_template :: "string \<Rightarrow> string \<Rightarrow> string \<Rightarrow> string" where
  "note_template title note_id now =
     ''# '' @ title @ [CHR 0x0A, CHR 0x0A]
     @ ''ID: '' @ note_id @ [CHR 0x0A]
     @ ''Created: '' @ now @ [CHR 0x0A, CHR 0x0A]
     @ ''Links: Use [[note_id]] to reference another note.'' @ [CHR 0x0A]
     @ ''Tags: Add with #example'' @ [CHR 0x0A]"

text \<open>
  \<open>new_note\<close>: \<open>title\<close> is the answer of the title dialog (\<open>None\<close> when it is cancelled),
  \<open>now\<close> the timestamp. The result is the new state, the dialogs shown and the exception
  that left the handler, if any.
\<close>

definition new_note :: "string option \<Rightarrow> string \<Rightarrow> app \<Rightarrow> app \<times> dialog list \<times> exn option" where
  "new_note title now a =
     (case title of
        None \<Rightarrow> (a, [], None)
      | Some t \<Rightarrow>
          if t = [] then (a, [], None)
          else
            let note_id = get_next_id (notes_dir a);
                filename = generate_filename note_id t
            in (case fs_write (notes_dir a) filename (note_template t note_id now) of
                  (st, Some e) \<Rightarrow> (a\<lparr>notes_dir := st\<rparr>, [], Some e)
                | (st, None) \<Rightarrow>
                    (case refresh_list None (a\<lparr>notes_dir := st\<rparr>) of
                       (Some e, a') \<Rightarrow> (a', [], Some e)
                     | (None, a') \<Rightarrow> (a', [Info_Note_Created filename], None))))"

text \<open>Successive title dialogs, each answered with a title; an exception ends one handler only.\<close>

fun new_notes :: "(string \<times> string) list \<Rightarrow> app \<Rightarrow> app" where
  "new_notes [] a = a"
| "new_notes ((title, now) # rest) a = new_notes rest (fst (new_note (Some title) now a))"





definition search_filter :: "store \<Rightarrow> string \<Rightarrow> string \<Rightarrow> bool" where
  \<comment> \<open>\<open>filter_func\<close> of \<open>search_notes\<close>\<close>
  "search_filter st keyword fname =
     (case fs_read st fname of
        Inl e \<Rightarrow> False
      | Inr text \<Rightarrow> str_in keyword (str_lower fname) \<or> str_in keyword (str_lower text))"

definition search_notes :: "string \<Rightarrow> app \<Rightarrow> exn option \<times> app" where
  "search_notes search_var a =
     (let keyword = str_lower (str_strip search_var)
      in if keyword = [] then refresh_list None a
         else refresh_list (Some (search_filter (notes_dir a) keyword)) a)"

text \<open>An ordinary file, on which no call raises, and the same file when it cannot be read.\<close>

definition plain :: "string \<Rightarrow> note_file" where
  "plain text =
     \<lparr>content = text, readable = True, writable = True, breaks_after = None, removable = True\<rparr>"

definition unreadable :: "string \<Rightarrow> note_file" where
  "unreadable text = (plain text)\<lparr>readable := False\<rparr>"

text \<open>The window right after start, over a given directory: nothing listed, no note open.\<close>

definition window :: "store \<Rightarrow> app" where
  "window st = \<lparr>notes_dir = st, sidebar = [], current_note = None\<rparr>"

text \<open>
  A tag token of a text, as the specification words it: a hash sign followed by a run of
  one or more word characters that ends where the text ends or the next character is no
  word character.
\<close>

definition tag_token :: "string \<Rightarrow> string \<Rightarrow> bool" where
  "tag_token t s =
     (\<exists>pre w post. s = pre @ CHR ''#'' # w @ post \<and> t = CHR ''#'' # w \<and> w \<noteq> []
        \<and> list_all is_word w \<and> (post = [] \<or> \<not> is_word (hd post)))"

text \<open>
  A title the directory can take: not empty, and free of the path separator and of NUL,
  so that the filename derived from it can be opened.
\<close>

definition creatable :: "string \<Rightarrow> bool" where
  "creatable title = (title \<noteq> [] \<and> CHR ''/'' \<notin> set title \<and> CHR 0x00 \<notin> set title)"






section \<open>Integers and their decimal text\<close>

lemma code_point_digit_char: "d < 10 \<Longrightarrow> code_point (digit_char d) = 48 + d"
  by (simp add: code_point_def digit_char_def)

lemma is_digit_digit_char: "d < 10 \<Longrightarrow> is_digit (digit_char d)"
  by (simp add: is_digit_def code_point_digit_char)

lemma digit_val_digit_char: "d < 10 \<Longrightarrow> digit_val (digit_char d) = d"
  by (simp add: digit_val_def code_point_digit_char)

lemma is_digit_not_int_space: "is_digit c \<Longrightarrow> \<not> is_int_space c"
  by (auto simp: is_digit_def is_int_space_def Let_def)

lemma is_digit_not_sign:
  "is_digit c \<Longrightarrow> c \<noteq> CHR ''-'' \<and> c \<noteq> CHR ''+'' \<and> c \<noteq> CHR ''_''"
  by (auto simp: is_digit_def code_point_def)

lemma nat_digits_nonempty: "nat_digits n \<noteq> []"
  by (subst nat_digits.simps) simp

lemma nat_digits_all_digits: "list_all is_digit (nat_digits n)"
proof (induction n rule: nat_digits.induct)
  case (1 n)
  show ?case
  proof (cases "n < 10")
    case True
    then show ?thesis by (subst nat_digits.simps) (simp add: is_digit_digit_char)
  next
    case False
    with 1 show ?thesis by (subst nat_digits.simps) (simp add: is_digit_digit_char)
  qed
qed

lemma digits_val_snoc: "digits_val (ds @ [c]) = 10 * digits_val ds + digit_val c"
  by (simp add: digits_val_def)

lemma digits_val_nat_digits: "digits_val (nat_digits n) = n"
proof (induction n rule: nat_digits.induct)
  case (1 n)
  show ?case
  proof (cases "n < 10")
    case True
    then show ?thesis
      by (subst nat_digits.simps) (simp add: digits_val_def digit_val_digit_char)
  next
    case False
    with 1 have "digits_val (nat_digits (n div 10)) = n div 10" by simp
    with False show ?thesis
      by (subst nat_digits.simps) (simp add: digits_val_snoc digit_val_digit_char)
  qed
qed

lemma int_strip_id:
  assumes "s \<noteq> []" "\<not> is_int_space (hd s)" "\<not> is_int_space (last s)"
  shows "int_strip s = s"
proof -
  from assms have a: "dropWhile is_int_space s = s"
    by (simp add: dropWhile_eq_self_iff)
  from assms have "dropWhile is_int_space (rev s) = rev s"
    by (simp add: dropWhile_eq_self_iff hd_rev)
  with a show ?thesis by (simp add: int_strip_def)
qed

lemma py_int_digits:
  assumes "ds \<noteq> []" "list_all is_digit ds"
  shows "py_int ds = Some (int (digits_val ds))"
    and "py_int (CHR ''-'' # ds) = Some (- int (digits_val ds))"
proof -
  from assms have h: "is_digit (hd ds)" and l: "is_digit (last ds)"
    by (cases ds; simp add: list_all_iff)+
  from assms h l have s1: "int_strip ds = ds"
    by (intro int_strip_id) (auto dest: is_digit_not_int_space)
  have "\<not> is_int_space CHR ''-''" by (simp add: is_int_space_def code_point_def)
  with assms l have s2: "int_strip (CHR ''-'' # ds) = CHR ''-'' # ds"
    by (intro int_strip_id) (auto dest: is_digit_not_int_space)
  from h have ns: "hd ds \<noteq> CHR ''-''" "hd ds \<noteq> CHR ''+''"
    using is_digit_not_sign by blast+
  from assms s1 ns show "py_int ds = Some (int (digits_val ds))"
    by (simp add: py_int_def Let_def)
  from assms s2 show "py_int (CHR ''-'' # ds) = Some (- int (digits_val ds))"
    by (simp add: py_int_def Let_def)
qed

lemma py_int_py_str: "py_int (py_str i) = Some i"
  by (simp add: py_str_def py_int_digits nat_digits_nonempty nat_digits_all_digits
      digits_val_nat_digits)

section \<open>The allocator\<close>

lemma collect_ids_eq:
  "collect_ids fs ids = ids @ List.map_filter (\<lambda>f. py_int (before_underscore f)) fs"
  by (induction fs arbitrary: ids) (auto split: option.splits)

lemma fold_max_Max: "xs \<noteq> [] \<Longrightarrow> fold max (tl xs) (hd xs) = Max (set xs)"
  using Max.set_eq_fold [of "hd xs" "tl xs"] by simp

lemma get_next_id_py_str: "get_next_id st = py_str (spec_next_id st)"
  by (simp add: get_next_id_def spec_next_id_def parsed_ids_def collect_ids_eq fold_max_Max
      Let_def)

lemma list_note_files_filter:
  "list_note_files (filter (\<lambda>(n, f). P n) st) = filter P (list_note_files st)"
  by (induction st) (auto simp: list_note_files_def)

lemma parsed_ids_skip:
  "parsed_ids (filter (\<lambda>(n, f). py_int (before_underscore n) \<noteq> None) st) = parsed_ids st"
proof -
  have "List.map_filter g (filter (\<lambda>x. g x \<noteq> None) xs) = List.map_filter g xs"
    for g :: "string \<Rightarrow> int option" and xs
    by (induction xs) (auto split: option.splits)
  then show ?thesis
    by (simp add: parsed_ids_def list_note_files_filter)
qed

text \<open>
  Claim C2. \<open>get_next_id\<close> returns the decimal text of the greatest integer prefix of the
  note filenames plus one, and of one when no filename has an integer prefix. It has no
  error result, and the files whose prefix is no integer do not count: removing them from
  the directory leaves the answer as it is.
\<close>

theorem get_next_id_is_max_plus_one:
  "get_next_id st = py_str (spec_next_id st)
   \<and> py_int (get_next_id st) = Some (spec_next_id st)
   \<and> get_next_id (filter (\<lambda>(n, f). py_int (before_underscore n) \<noteq> None) st) = get_next_id st"
proof -
  have "get_next_id (filter (\<lambda>(n, f). py_int (before_underscore n) \<noteq> None) st) = get_next_id st"
    by (simp only: get_next_id_py_str spec_next_id_def parsed_ids_skip)
  then show ?thesis
    by (simp only: get_next_id_py_str py_int_py_str simp_thms)
qed

text \<open>With the notes 1, 2 and 5 and a stray file, the next ID is 6.\<close>

theorem get_next_id_is_max_plus_one_witness:
  "spec_next_id [(''1_a.md'', plain ''''), (''notes.md'', plain ''''), (''2_b.md'', plain ''''),
                 (''5_c.md'', plain '''')] = 6
   \<and> get_next_id [(''1_a.md'', plain ''''), (''notes.md'', plain ''''), (''2_b.md'', plain ''''),
                   (''5_c.md'', plain '''')] = ''6''"
proof -
  let ?st = "[(''1_a.md'', plain ''''), (''notes.md'', plain ''''), (''2_b.md'', plain ''''),
              (''5_c.md'', plain '''')]"
  have a: "spec_next_id ?st = 6" by code_simp
  have b: "py_str 6 = ''6''" by code_simp
  from get_next_id_is_max_plus_one [of ?st] a b show ?thesis by simp
qed

section \<open>The listing\<close>

lemma sort_by_id_ok:
  assumes "list_all (\<lambda>x. py_int (before_underscore x) \<noteq> None) files"
  shows "\<exists>fs ks. sort_by_id files = Inr fs \<and> mset fs = mset files
          \<and> map (\<lambda>f. py_int (before_underscore f)) fs = map Some ks \<and> sorted ks"
proof -
  let ?key = "\<lambda>x. the (py_int (before_underscore x))"
  let ?fs = "sort_key ?key files"
  from assms have r: "sort_by_id files = Inr ?fs" by (simp add: sort_by_id_def)
  have m: "mset ?fs = mset files" by simp
  have s: "sorted (map ?key ?fs)" by (rule sorted_sort_key)
  from assms have "\<forall>f \<in> set ?fs. py_int (before_underscore f) \<noteq> None"
    by (simp add: list_all_iff)
  then have "map (\<lambda>f. py_int (before_underscore f)) ?fs = map Some (map ?key ?fs)"
    by (auto simp del: set_sort)
  with r m s show ?thesis by blast
qed

text \<open>
  Claim C3. When every note file has an integer prefix, the listing raises nothing and
  shows the note files, each once, in ascending order of the integers parsed from their
  prefixes; the notes 2, 10 and 1 are listed as 1, 2, 10.
\<close>

theorem refresh_list_sorted_by_id:
  assumes "\<forall>f \<in> set (list_note_files (notes_dir a)). py_int (before_underscore f) \<noteq> None"
  shows "\<exists>fs ks. refresh_list None a = (None, a\<lparr>sidebar := fs\<rparr>)
           \<and> mset fs = mset (list_note_files (notes_dir a))
           \<and> map (\<lambda>f. py_int (before_underscore f)) fs = map Some ks
           \<and> sorted ks"
proof -
  from assms have "list_all (\<lambda>x. py_int (before_underscore x) \<noteq> None) (list_note_files (notes_dir a))"
    by (simp add: list_all_iff)
  from sort_by_id_ok [OF this] obtain fs ks where
    "sort_by_id (list_note_files (notes_dir a)) = Inr fs"
    "mset fs = mset (list_note_files (notes_dir a))"
    "map (\<lambda>f. py_int (before_underscore f)) fs = map Some ks" "sorted ks"
    by blast
  then show ?thesis by (auto simp: refresh_list_def)
qed

theorem refresh_list_sorted_by_id_witness:
  "list_all (\<lambda>f. py_int (before_underscore f) \<noteq> None)
     (list_note_files [(''2_b.md'', plain ''''), (''10_c.md'', plain ''''), (''1_a.md'', plain '''')])
   \<and> sidebar (snd (refresh_list None
        (window [(''2_b.md'', plain ''''), (''10_c.md'', plain ''''), (''1_a.md'', plain '''')])))
      = [''1_a.md'', ''2_b.md'', ''10_c.md'']
   \<and> map (\<lambda>f. py_int (before_underscore f)) [''1_a.md'', ''2_b.md'', ''10_c.md'']
      = map Some [1, 2, 10]"
proof -
  let ?st = "[(''2_b.md'', plain ''''), (''10_c.md'', plain ''''), (''1_a.md'', plain '''')]"
  have h: "\<forall>f \<in> set (list_note_files (notes_dir (window ?st))). py_int (before_underscore f) \<noteq> None"
    by code_simp
  have e: "sidebar (snd (refresh_list None (window ?st))) = [''1_a.md'', ''2_b.md'', ''10_c.md'']"
    by code_simp
  have k: "map (\<lambda>f. py_int (before_underscore f)) [''1_a.md'', ''2_b.md'', ''10_c.md''] = map Some [1, 2, 10]"
    by code_simp
  from refresh_list_sorted_by_id [OF h] h e k show ?thesis
    by (simp add: window_def list_all_iff)
qed

text \<open>
  Claim C10. A directory with a note file (ending in \<open>.md\<close>, not starting with a dot)
  whose prefix before the first underscore is no integer makes the listing raise
  \<open>ValueError\<close>, with or without a filter, and leaves the sidebar empty; the allocator on
  the same directory still answers.
\<close>

theorem refresh_list_raises_on_bad_prefix:
  assumes "(f, x) \<in> set (notes_dir a)" "endswith f ''.md''" "\<not> startswith f ''.''"
    and "py_int (before_underscore f) = None"
  shows "refresh_list flt a = (Some ValueError, a\<lparr>sidebar := []\<rparr>)
         \<and> py_int (get_next_id (notes_dir a)) = Some (spec_next_id (notes_dir a))"
proof -
  from assms(1-3) have "f \<in> set (list_note_files (notes_dir a))"
    by (force simp: list_note_files_def)
  with assms(4) have "sort_by_id (list_note_files (notes_dir a)) = Inl ValueError"
    by (auto simp: sort_by_id_def list_all_iff)
  then show ?thesis
    by (simp add: refresh_list_def get_next_id_py_str py_int_py_str)
qed

theorem refresh_list_raises_on_bad_prefix_witness:
  "refresh_list None (window [(''1_a.md'', plain ''''), (''notes.md'', plain '''')])
     = (Some ValueError, window [(''1_a.md'', plain ''''), (''notes.md'', plain '''')])
   \<and> get_next_id [(''1_a.md'', plain ''''), (''notes.md'', plain '''')] = ''2''"
proof -
  let ?st = "[(''1_a.md'', plain ''''), (''notes.md'', plain '''')]"
  have 1: "(''notes.md'', plain '''') \<in> set (notes_dir (window ?st))" by (simp add: window_def)
  have 2: "endswith ''notes.md'' ''.md''" by code_simp
  have 3: "\<not> startswith ''notes.md'' ''.''" by code_simp
  have 4: "py_int (before_underscore ''notes.md'') = None" by code_simp
  have 5: "py_str (spec_next_id ?st) = ''2''" by code_simp
  from refresh_list_raises_on_bad_prefix [OF 1 2 3 4, of None] 5 show ?thesis
    by (simp add: window_def get_next_id_py_str)
qed

section \<open>Backlinks\<close>

lemma backlinks_loop_eq:
  "backlinks_loop st note_id fs acc =
     acc @ filter (\<lambda>f. \<exists>text. fs_read st f = Inr text \<and> str_in (link_token note_id) text) fs"
  by (induction fs arbitrary: acc) (auto split: sum.splits)

lemma str_in_iff: "str_in p s \<longleftrightarrow> (\<exists>pre post. s = pre @ p @ post)"
  by (simp add: str_in_def sublist_def)

text \<open>
  Claim C6. \<open>find_backlinks\<close> returns, in listing order, exactly the note files that can be
  read and whose text contains the literal token made of two opening brackets, the ID and
  two closing brackets. No file is excluded because it is the note itself, and a file that
  cannot be read is passed over.
\<close>

theorem find_backlinks_exact:
  "find_backlinks st note_id =
     filter (\<lambda>f. \<exists>text. fs_read st f = Inr text
                  \<and> (\<exists>pre post. text = pre @ ''[['' @ note_id @ '']]'' @ post))
       (list_note_files st)"
  by (simp add: find_backlinks_def backlinks_loop_eq str_in_iff link_token_def)

text \<open>
  Note 1 links to itself and is reported; blanks inside the brackets do not match; the
  unreadable note 3 is passed over.
\<close>

theorem find_backlinks_exact_witness:
  "filter (\<lambda>f. \<exists>text. fs_read
        [(''1_a.md'', plain ''me: [[1]]''), (''2_b.md'', plain ''see [[ 1 ]] and [[1 ]]''),
         (''3_c.md'', unreadable ''x [[1]]''),
         (''4_d.md'', plain ''[[[1]]]''), (''5_e.md'', plain ''[[11]]'')] f = Inr text
                  \<and> (\<exists>pre post. text = pre @ ''[['' @ ''1'' @ '']]'' @ post))
       (list_note_files
        [(''1_a.md'', plain ''me: [[1]]''), (''2_b.md'', plain ''see [[ 1 ]] and [[1 ]]''),
         (''3_c.md'', unreadable ''x [[1]]''),
         (''4_d.md'', plain ''[[[1]]]''), (''5_e.md'', plain ''[[11]]'')])
   = [''1_a.md'', ''4_d.md'']"
proof -
  let ?st = "[(''1_a.md'', plain ''me: [[1]]''), (''2_b.md'', plain ''see [[ 1 ]] and [[1 ]]''),
         (''3_c.md'', unreadable ''x [[1]]''),
         (''4_d.md'', plain ''[[[1]]]''), (''5_e.md'', plain ''[[11]]'')]"
  have "find_backlinks ?st ''1'' = [''1_a.md'', ''4_d.md'']" by code_simp
  with find_backlinks_exact [of ?st "''1''"] show ?thesis by simp
qed

section \<open>Tags\<close>

lemma hash_not_word: "\<not> is_word CHR ''#''"
  by (simp add: is_word_def code_point_def)

lemma tag_token_append: "tag_token t s \<Longrightarrow> tag_token t (xs @ s)"
proof -
  assume "tag_token t s"
  then obtain pre w post where "s = pre @ CHR ''#'' # w @ post" "t = CHR ''#'' # w" "w \<noteq> []"
    "list_all is_word w" "post = [] \<or> \<not> is_word (hd post)"
    unfolding tag_token_def by blast
  then have "xs @ s = (xs @ pre) @ CHR ''#'' # w @ post" by simp
  with \<open>t = CHR ''#'' # w\<close> \<open>w \<noteq> []\<close> \<open>list_all is_word w\<close> \<open>post = [] \<or> \<not> is_word (hd post)\<close>
  show ?thesis unfolding tag_token_def by blast
qed

lemma tag_token_Cons: "tag_token t s \<Longrightarrow> tag_token t (c # s)"
  using tag_token_append [of t s "[c]"] by simp

lemma tag_token_dropWhile: "tag_token t s \<Longrightarrow> tag_token t (dropWhile is_word s)"
proof -
  assume "tag_token t s"
  then obtain pre w post where s: "s = pre @ CHR ''#'' # w @ post" and r: "t = CHR ''#'' # w" "w \<noteq> []"
    "list_all is_word w" "post = [] \<or> \<not> is_word (hd post)"
    unfolding tag_token_def by blast
  from s have "dropWhile is_word s = dropWhile is_word pre @ CHR ''#'' # w @ post"
    by (simp add: dropWhile_append3 hash_not_word)
  with r show ?thesis unfolding tag_token_def by blast
qed

lemma takeWhile_run:
  assumes "list_all P w" "post = [] \<or> \<not> P (hd post)"
  shows "takeWhile P (w @ post) = w"
proof (cases post)
  case Nil
  with assms show ?thesis by (simp add: list_all_iff)
next
  case (Cons y ys)
  with assms show ?thesis by (simp add: takeWhile_tail list_all_iff)
qed

lemma findall_tags_sound: "t \<in> set (findall_tags s) \<Longrightarrow> tag_token t s"
proof (induction s rule: findall_tags.induct)
  case 1
  then show ?case by simp
next
  case (2 c cs)
  show ?case
  proof (cases "c = CHR ''#'' \<and> takeWhile is_word cs \<noteq> []")
    case True
    with 2 consider "t = c # takeWhile is_word cs" | "t \<in> set (findall_tags (dropWhile is_word cs))"
      by auto
    then show ?thesis
    proof cases
      case 1
      have "c # cs = [] @ CHR ''#'' # takeWhile is_word cs @ dropWhile is_word cs"
        using True by simp
      moreover have "list_all is_word (takeWhile is_word cs)"
        by (simp add: list_all_iff) (meson set_takeWhileD)
      moreover have "dropWhile is_word cs = [] \<or> \<not> is_word (hd (dropWhile is_word cs))"
        using hd_dropWhile by blast
      ultimately show ?thesis using 1 True unfolding tag_token_def by blast
    next
      case 2
      with "2.IH"(1) True have "tag_token t (dropWhile is_word cs)" by simp
      then have "tag_token t ((c # takeWhile is_word cs) @ dropWhile is_word cs)"
        by (rule tag_token_append)
      then show ?thesis by simp
    qed
  next
    case False
    with 2 have "tag_token t cs" by auto
    then show ?thesis by (rule tag_token_Cons)
  qed
qed

lemma findall_tags_complete: "tag_token t s \<Longrightarrow> t \<in> set (findall_tags s)"
proof (induction s rule: findall_tags.induct)
  case 1
  then show ?case by (simp add: tag_token_def)
next
  case (2 c cs)
  from "2.prems" obtain pre w post where s: "c # cs = pre @ CHR ''#'' # w @ post"
    and r: "t = CHR ''#'' # w" "w \<noteq> []" "list_all is_word w" "post = [] \<or> \<not> is_word (hd post)"
    unfolding tag_token_def by blast
  show ?case
  proof (cases pre)
    case Nil
    with s have c: "c = CHR ''#''" and cs: "cs = w @ post" by simp_all
    from r cs have "takeWhile is_word cs = w" by (simp add: takeWhile_run)
    with c r show ?thesis by simp
  next
    case (Cons p pre')
    with s have "cs = pre' @ CHR ''#'' # w @ post" by simp
    with r have tc: "tag_token t cs" unfolding tag_token_def by blast
    show ?thesis
    proof (cases "c = CHR ''#'' \<and> takeWhile is_word cs \<noteq> []")
      case True
      from tc have "tag_token t (dropWhile is_word cs)" by (rule tag_token_dropWhile)
      with "2.IH"(1) True have "t \<in> set (findall_tags (dropWhile is_word cs))" by simp
      with True show ?thesis by simp
    next
      case False
      with "2.IH"(2) tc have "t \<in> set (findall_tags cs)" by simp
      with False show ?thesis by auto
    qed
  qed
qed

lemma findall_tags_iff: "t \<in> set (findall_tags s) \<longleftrightarrow> tag_token t s"
  using findall_tags_sound findall_tags_complete by blast

lemma tags_loop_eq:
  "tags_loop st fs T =
     T \<union> {t. \<exists>f \<in> set fs. \<exists>text. fs_read st f = Inr text \<and> t \<in> set (findall_tags text)}"
  by (induction fs arbitrary: T) (auto split: sum.splits)

lemma tags_loop_finite: "finite T \<Longrightarrow> finite (tags_loop st fs T)"
  by (induction fs arbitrary: T) (auto split: sum.splits)

text \<open>
  Claim C8. \<open>extract_tags\<close> returns the tag tokens of the readable note files, each once,
  in strictly ascending lexicographic order of the character codes. Upper and lower case
  are different characters, and a hash sign inside a word starts a token as any other.
\<close>

theorem extract_tags_sorted_set:
  "set (extract_tags st) =
     {t. \<exists>f \<in> set (list_note_files st). \<exists>text. fs_read st f = Inr text \<and> tag_token t text}
   \<and> sorted_wrt (<) (extract_tags st)"
proof -
  have f: "finite (tags_loop st (list_note_files st) {})" by (simp add: tags_loop_finite)
  then have "set (extract_tags st) = tags_loop st (list_note_files st) {}"
    by (simp add: extract_tags_def)
  moreover have "sorted_wrt (<) (extract_tags st)"
    by (simp add: extract_tags_def)
  ultimately show ?thesis by (simp add: tags_loop_eq findall_tags_iff)
qed

theorem extract_tags_sorted_set_witness:
  "extract_tags [(''1_a.md'', plain ''#project and #Project''),
                 (''2_b.md'', plain ''foo#bar #project ## # #_x1!''),
                 (''3_c.md'', unreadable ''#hidden'')]
     = [''#Project'', ''#_x1'', ''#bar'', ''#project'']
   \<and> {t. \<exists>f \<in> set (list_note_files [(''1_a.md'', plain ''#project and #Project''),
                 (''2_b.md'', plain ''foo#bar #project ## # #_x1!''),
                 (''3_c.md'', unreadable ''#hidden'')]).
          \<exists>text. fs_read [(''1_a.md'', plain ''#project and #Project''),
                 (''2_b.md'', plain ''foo#bar #project ## # #_x1!''),
                 (''3_c.md'', unreadable ''#hidden'')] f = Inr text
                 \<and> tag_token t text}
     = {''#Project'', ''#_x1'', ''#bar'', ''#project''}"
proof -
  let ?st = "[(''1_a.md'', plain ''#project and #Project''),
                 (''2_b.md'', plain ''foo#bar #project ## # #_x1!''),
                 (''3_c.md'', unreadable ''#hidden'')]"
  have e: "extract_tags ?st = [''#Project'', ''#_x1'', ''#bar'', ''#project'']" by code_simp
  from extract_tags_sorted_set [of ?st] show ?thesis unfolding e by simp
qed

section \<open>Creating notes\<close>

lemma set_str_strip: "set (str_strip s) \<subseteq> set s"
proof
  fix c assume "c \<in> set (str_strip s)"
  then have "c \<in> set (dropWhile is_space (rev (dropWhile is_space s)))"
    by (simp add: str_strip_def)
  then have "c \<in> set (rev (dropWhile is_space s))" by (rule set_dropWhileD)
  then have "c \<in> set (dropWhile is_space s)" by simp
  then show "c \<in> set s" by (rule set_dropWhileD)
qed

lemma set_split_ws: "x \<in> set (split_ws w s) \<Longrightarrow> set x \<subseteq> set w \<union> set s"
  by (induction w s rule: split_ws.induct) (auto split: if_splits)

lemma set_str_join: "set (str_join sep ws) \<subseteq> set sep \<union> (\<Union>w \<in> set ws. set w)"
  by (induction sep ws rule: str_join.induct) auto

lemma set_slug:
  "set (take 30 (str_join ''_'' (str_split (str_strip title)))) \<subseteq> insert CHR ''_'' (set title)"
proof
  fix c assume "c \<in> set (take 30 (str_join ''_'' (str_split (str_strip title))))"
  then have "c \<in> set (str_join ''_'' (str_split (str_strip title)))"
    by (rule in_set_takeD)
  with set_str_join consider "c = CHR ''_''" | w where "w \<in> set (str_split (str_strip title))" "c \<in> set w"
    by fastforce
  then show "c \<in> insert CHR ''_'' (set title)"
  proof cases
    case 1
    then show ?thesis by simp
  next
    case 2
    then have "c \<in> set (str_strip title)"
      using set_split_ws [of w "[]" "str_strip title"] by (auto simp: str_split_def)
    with set_str_strip show ?thesis by blast
  qed
qed

lemma is_digit_set_nat_digits: "c \<in> set (nat_digits n) \<Longrightarrow> is_digit c"
  using nat_digits_all_digits [of n] by (simp add: list_all_iff)

lemma py_str_chars: "c \<in> set (py_str i) \<Longrightarrow> c = CHR ''-'' \<or> is_digit c"
  by (auto simp: py_str_def dest: is_digit_set_nat_digits split: if_splits)

lemma not_sign_or_digit:
  "\<not> (c = CHR ''-'' \<or> is_digit c) \<Longrightarrow> c \<notin> set (py_str i)"
  using py_str_chars by blast

lemma py_str_no_special:
  "CHR ''_'' \<notin> set (py_str i)" "CHR ''/'' \<notin> set (py_str i)" "CHR 0x00 \<notin> set (py_str i)"
  "CHR ''['' \<notin> set (py_str i)" "CHR ''('' \<notin> set (py_str i)"
  by (rule not_sign_or_digit, simp add: is_digit_def code_point_def)+

lemma py_str_nonempty: "py_str i \<noteq> []"
  by (simp add: py_str_def nat_digits_nonempty)

lemma py_str_hd_not_dot: "hd (py_str i) \<noteq> CHR ''.''"
proof -
  have "hd (py_str i) \<in> set (py_str i)" by (simp add: py_str_nonempty)
  then have "hd (py_str i) = CHR ''-'' \<or> is_digit (hd (py_str i))" by (rule py_str_chars)
  then show ?thesis by (auto simp: is_digit_def code_point_def)
qed

lemma takeWhile_until:
  "x \<notin> set xs \<Longrightarrow> takeWhile (\<lambda>c. c \<noteq> x) (xs @ x # rest) = xs"
  by (induction xs) auto

lemma before_underscore_generate:
  "CHR ''_'' \<notin> set note_id \<Longrightarrow> before_underscore (generate_filename note_id title) = note_id"
  by (simp add: before_underscore_def generate_filename_def Let_def takeWhile_until)

lemma generate_filename_is_note:
  "endswith (generate_filename (py_str i) title) ''.md''"
  "\<not> startswith (generate_filename (py_str i) title) ''.''"
proof -
  show "endswith (generate_filename (py_str i) title) ''.md''"
    unfolding endswith_def generate_filename_def Let_def suffix_def
    by (intro exI [of _ "py_str i @ ''_'' @ take 30 (str_join ''_'' (str_split (str_strip title)))"]) simp
  have "hd (generate_filename (py_str i) title) = hd (py_str i)"
    by (simp add: generate_filename_def Let_def py_str_nonempty)
  moreover have "generate_filename (py_str i) title \<noteq> []"
    by (simp add: generate_filename_def Let_def)
  ultimately show "\<not> startswith (generate_filename (py_str i) title) ''.''"
    using py_str_hd_not_dot [of i]
    by (cases "generate_filename (py_str i) title") (auto simp: startswith_def)
qed

lemma generate_filename_legal:
  assumes "creatable title"
  shows "CHR ''/'' \<notin> set (generate_filename (py_str i) title)"
    and "CHR 0x00 \<notin> set (generate_filename (py_str i) title)"
    and "generate_filename (py_str i) title \<noteq> []"
proof -
  let ?slug = "take 30 (str_join ''_'' (str_split (str_strip title)))"
  have g: "generate_filename (py_str i) title = py_str i @ ''_'' @ ?slug @ ''.md''"
    by (simp add: generate_filename_def Let_def)
  from assms have "CHR ''/'' \<notin> insert CHR ''_'' (set title)"
    and "CHR 0x00 \<notin> insert CHR ''_'' (set title)"
    by (simp_all add: creatable_def)
  with set_slug [of title] have "CHR ''/'' \<notin> set ?slug" "CHR 0x00 \<notin> set ?slug"
    by blast+
  then show "CHR ''/'' \<notin> set (generate_filename (py_str i) title)"
    and "CHR 0x00 \<notin> set (generate_filename (py_str i) title)"
    unfolding g using py_str_no_special [of i] by simp_all
  show "generate_filename (py_str i) title \<noteq> []"
    unfolding g by simp
qed

lemma spec_next_id_gt: "m \<in> set (parsed_ids st) \<Longrightarrow> m < spec_next_id st"
proof -
  assume m: "m \<in> set (parsed_ids st)"
  then have "parsed_ids st \<noteq> []" by auto
  moreover from m have "m \<le> Max (set (parsed_ids st))" by simp
  ultimately show ?thesis by (simp add: spec_next_id_def)
qed

lemma set_map_filter_iff:
  "y \<in> set (List.map_filter g xs) \<longleftrightarrow> (\<exists>x \<in> set xs. g x = Some y)"
  by (induction xs) (auto split: option.splits)

lemma map_filter_snoc:
  "List.map_filter g (xs @ [x]) =
     List.map_filter g xs @ (case g x of None \<Rightarrow> [] | Some y \<Rightarrow> [y])"
  by (induction xs) (auto split: option.splits)

lemma parsed_ids_iff:
  "n \<in> set (parsed_ids st) \<longleftrightarrow>
     (\<exists>f \<in> set (list_note_files st). py_int (before_underscore f) = Some n)"
  by (simp add: parsed_ids_def set_map_filter_iff)

lemma new_name_parses:
  "py_int (before_underscore (generate_filename (py_str i) title)) = Some i"
  by (simp add: before_underscore_generate py_str_no_special py_int_py_str)

lemma fresh_name: "map_of st (generate_filename (py_str (spec_next_id st)) title) = None"
proof (rule ccontr)
  let ?f = "generate_filename (py_str (spec_next_id st)) title"
  assume "map_of st ?f \<noteq> None"
  then have "?f \<in> fst ` set st" by (simp add: map_of_eq_None_iff)
  then have "?f \<in> set (list_note_files st)"
    by (simp add: list_note_files_def generate_filename_is_note)
  then have "spec_next_id st \<in> set (parsed_ids st)"
    using new_name_parses parsed_ids_iff by blast
  then show False using spec_next_id_gt by blast
qed

lemma fs_write_new:
  assumes "creatable title"
  shows "fs_write st (generate_filename (get_next_id st) title) text =
           (st @ [(generate_filename (get_next_id st) title, plain text)], None)"
  using generate_filename_legal [OF assms, of "spec_next_id st"] fresh_name [of st title]
  by (simp add: fs_write_def get_next_id_py_str plain_def)

lemma notes_dir_refresh_list: "notes_dir (snd (refresh_list flt a)) = notes_dir a"
  by (simp add: refresh_list_def split: sum.splits)

lemma new_note_store:
  assumes "creatable title"
  shows "notes_dir (fst (new_note (Some title) now a)) =
           notes_dir a @ [(generate_filename (get_next_id (notes_dir a)) title,
                           plain (note_template title (get_next_id (notes_dir a)) now))]"
proof -
  let ?st = "notes_dir a"
  let ?f = "generate_filename (get_next_id ?st) title"
  let ?st' = "?st @ [(?f, plain (note_template title (get_next_id ?st) now))]"
  from assms have t: "title \<noteq> []" by (simp add: creatable_def)
  have w: "fs_write ?st ?f (note_template title (get_next_id ?st) now) = (?st', None)"
    by (rule fs_write_new [OF assms])
  have "notes_dir (snd (refresh_list None (a\<lparr>notes_dir := ?st'\<rparr>))) = ?st'"
    by (simp add: notes_dir_refresh_list)
  with t w show ?thesis
    by (cases "refresh_list None (a\<lparr>notes_dir := ?st'\<rparr>)")
       (auto simp: new_note_def Let_def split: option.splits)
qed

lemma list_note_files_snoc:
  "list_note_files (st @ [(generate_filename (py_str i) title, x)]) =
     list_note_files st @ [generate_filename (py_str i) title]"
  by (simp add: list_note_files_def generate_filename_is_note)

lemma parsed_ids_snoc:
  "parsed_ids (st @ [(generate_filename (py_str i) title, x)]) = parsed_ids st @ [i]"
  by (simp add: parsed_ids_def list_note_files_snoc map_filter_snoc new_name_parses)

lemma spec_next_id_snoc:
  "spec_next_id (st @ [(generate_filename (py_str (spec_next_id st)) title, x)]) = spec_next_id st + 1"
proof (cases "parsed_ids st = []")
  case True
  then show ?thesis by (simp add: spec_next_id_def parsed_ids_snoc)
next
  case False
  then have "Max (insert (Max (set (parsed_ids st)) + 1) (set (parsed_ids st)))
              = Max (set (parsed_ids st)) + 1"
    by (subst Max_insert) auto
  with False show ?thesis by (simp add: spec_next_id_def parsed_ids_snoc)
qed

lemma new_notes_files:
  assumes "\<forall>r \<in> set reqs. creatable (fst r)"
  shows "\<exists>fs. list_note_files (notes_dir (new_notes reqs a)) = list_note_files (notes_dir a) @ fs
          \<and> map extract_id_from_filename fs =
              map (\<lambda>k. py_str (spec_next_id (notes_dir a) + int k)) [0..<length reqs]"
  using assms
proof (induction reqs arbitrary: a)
  case Nil
  then show ?case by simp
next
  case (Cons r rest)
  obtain title now where r: "r = (title, now)" by (cases r)
  let ?st = "notes_dir a"
  let ?s = "spec_next_id ?st"
  let ?f = "generate_filename (py_str ?s) title"
  let ?a1 = "fst (new_note (Some title) now a)"
  from Cons.prems r have c: "creatable title" by simp
  have st1: "notes_dir ?a1 = ?st @ [(?f, plain (note_template title (py_str ?s) now))]"
    using new_note_store [OF c, of now a] by (simp add: get_next_id_py_str)
  have l1: "list_note_files (notes_dir ?a1) = list_note_files ?st @ [?f]"
    unfolding st1 by (rule list_note_files_snoc)
  have s1: "spec_next_id (notes_dir ?a1) = ?s + 1"
    unfolding st1 by (rule spec_next_id_snoc)
  from Cons.prems have "\<forall>r \<in> set rest. creatable (fst r)" by simp
  from Cons.IH [OF this, of ?a1] obtain fs where
    fs: "list_note_files (notes_dir (new_notes rest ?a1)) = list_note_files (notes_dir ?a1) @ fs"
    and ids: "map extract_id_from_filename fs =
                map (\<lambda>k. py_str (spec_next_id (notes_dir ?a1) + int k)) [0..<length rest]"
    by blast
  have e: "extract_id_from_filename ?f = py_str ?s"
    by (simp add: extract_id_from_filename_def before_underscore_generate py_str_no_special)
  have "map (\<lambda>k. py_str (?s + int k)) [0..<length (r # rest)]
          = py_str ?s # map (\<lambda>k. py_str (?s + 1 + int k)) [0..<length rest]"
    by (simp add: upt_conv_Cons map_Suc_upt [symmetric] add.commute add.left_commute
          del: upt_Suc)
  with ids s1 e have "map extract_id_from_filename (?f # fs)
          = map (\<lambda>k. py_str (?s + int k)) [0..<length (r # rest)]"
    by simp
  moreover from fs l1 r have
    "list_note_files (notes_dir (new_notes (r # rest) a)) = list_note_files ?st @ (?f # fs)"
    by simp
  ultimately show ?case by blast
qed

lemma py_str_inj: "py_str i = py_str j \<Longrightarrow> i = j"
proof -
  assume "py_str i = py_str j"
  then have "py_int (py_str i) = py_int (py_str j)" by simp
  then show ?thesis by (simp add: py_int_py_str)
qed

lemma spec_next_id_positive:
  "\<forall>m \<in> set (parsed_ids st). 0 \<le> m \<Longrightarrow> 0 < spec_next_id st"
proof -
  assume a: "\<forall>m \<in> set (parsed_ids st). 0 \<le> m"
  show ?thesis
  proof (cases "parsed_ids st = []")
    case True
    then show ?thesis by (simp add: spec_next_id_def)
  next
    case False
    then have "Max (set (parsed_ids st)) \<in> set (parsed_ids st)" by simp
    with a have "0 \<le> Max (set (parsed_ids st))" by blast
    with False show ?thesis by (simp add: spec_next_id_def)
  qed
qed

text \<open>
  Claim C1, as the code has it. A sequence of N creations, each with a title that is not
  empty and has no path separator and no NUL, adds N note files to the listing. Their IDs
  are the decimal texts of N distinct integers, none of which is the integer prefix of a
  note file present before; the IDs are positive when no note file present before has a
  negative prefix.
\<close>

theorem new_notes_distinct_ids:
  assumes "\<forall>r \<in> set reqs. creatable (fst r)"
  shows "\<exists>fs ns. list_note_files (notes_dir (new_notes reqs a)) = list_note_files (notes_dir a) @ fs
     \<and> length fs = length reqs
     \<and> map extract_id_from_filename fs = map py_str ns
     \<and> distinct ns \<and> distinct (map extract_id_from_filename fs)
     \<and> (\<forall>n \<in> set ns. \<forall>f \<in> set (list_note_files (notes_dir a)). py_int (before_underscore f) \<noteq> Some n)
     \<and> ((\<forall>m \<in> set (parsed_ids (notes_dir a)). 0 \<le> m) \<longrightarrow> (\<forall>n \<in> set ns. 0 < n))"
proof -
  let ?st = "notes_dir a"
  let ?s = "spec_next_id ?st"
  let ?ns = "map (\<lambda>k. ?s + int k) [0..<length reqs]"
  from new_notes_files [OF assms, of a] obtain fs where
    fs: "list_note_files (notes_dir (new_notes reqs a)) = list_note_files ?st @ fs"
    and ids: "map extract_id_from_filename fs = map (\<lambda>k. py_str (?s + int k)) [0..<length reqs]"
    by blast
  from ids have m: "map extract_id_from_filename fs = map py_str ?ns" by (simp add: comp_def)
  from ids have "length (map extract_id_from_filename fs)
      = length (map (\<lambda>k. py_str (?s + int k)) [0..<length reqs])" by simp
  then have len: "length fs = length reqs" by simp
  have d: "distinct ?ns" by (simp add: distinct_map inj_on_def)
  have "inj_on py_str (set ?ns)" by (rule inj_onI) (rule py_str_inj)
  with d have d2: "distinct (map extract_id_from_filename fs)"
    unfolding m by (simp only: distinct_map simp_thms)
  have ge: "\<forall>n \<in> set ?ns. ?s \<le> n" by auto
  have fresh: "\<forall>n \<in> set ?ns. \<forall>f \<in> set (list_note_files ?st). py_int (before_underscore f) \<noteq> Some n"
  proof (intro ballI notI)
    fix n f assume "n \<in> set ?ns" "f \<in> set (list_note_files ?st)" "py_int (before_underscore f) = Some n"
    then have "n \<in> set (parsed_ids ?st)" using parsed_ids_iff by blast
    then have "n < ?s" by (rule spec_next_id_gt)
    with ge \<open>n \<in> set ?ns\<close> show False by fastforce
  qed
  have pos: "(\<forall>m \<in> set (parsed_ids ?st). 0 \<le> m) \<longrightarrow> (\<forall>n \<in> set ?ns. 0 < n)"
  proof (intro impI ballI)
    fix n assume "\<forall>m \<in> set (parsed_ids ?st). 0 \<le> m" "n \<in> set ?ns"
    then have "0 < ?s" using spec_next_id_positive by blast
    with ge \<open>n \<in> set ?ns\<close> show "0 < n" by fastforce
  qed
  from fs len m d d2 fresh pos show ?thesis by blast
qed

text \<open>
  Two creations next to note 3 give the notes 4 and 5.
\<close>

theorem new_notes_distinct_ids_witness:
  "creatable ''Alpha'' \<and> creatable ''Beta note''
   \<and> list_note_files (notes_dir (new_notes [(''Alpha'', ''T''), (''Beta note'', ''T'')]
        (window [(''3_c.md'', plain '''')])))
      = [''3_c.md'', ''4_Alpha.md'', ''5_Beta_note.md'']
   \<and> (\<exists>fs ns. list_note_files (notes_dir (new_notes [(''Alpha'', ''T''), (''Beta note'', ''T'')]
          (window [(''3_c.md'', plain '''')])))
        = list_note_files (notes_dir (window [(''3_c.md'', plain '''')])) @ fs
      \<and> length fs = 2 \<and> map extract_id_from_filename fs = map py_str ns \<and> distinct ns)"
proof -
  let ?reqs = "[(''Alpha'', ''T''), (''Beta note'', ''T'')]"
  let ?a = "window [(''3_c.md'', plain '''')]"
  have h: "\<forall>r \<in> set ?reqs. creatable (fst r)" by (simp add: creatable_def)
  have e: "list_note_files (notes_dir (new_notes ?reqs ?a)) = [''3_c.md'', ''4_Alpha.md'', ''5_Beta_note.md'']"
    by code_simp
  from new_notes_distinct_ids [OF h, of ?a] obtain fs ns where
    "list_note_files (notes_dir (new_notes ?reqs ?a)) = list_note_files (notes_dir ?a) @ fs"
    "length fs = length ?reqs" "map extract_id_from_filename fs = map py_str ns" "distinct ns"
    by blast
  then have "\<exists>fs ns. list_note_files (notes_dir (new_notes ?reqs ?a)) = list_note_files (notes_dir ?a) @ fs
      \<and> length fs = 2 \<and> map extract_id_from_filename fs = map py_str ns \<and> distinct ns"
    by auto
  with h e show ?thesis by simp
qed

text \<open>
  Claim C1 as stated fails: next to a note file named \<open>-5_a.md\<close>, whose prefix \<open>int\<close> reads
  as minus five, a creation with a valid title receives the ID minus four, which is not
  positive.
\<close>

theorem new_notes_negative_id_counterexample:
  "creatable ''x''
   \<and> list_note_files (notes_dir (new_notes [(''x'', ''T'')] (window [(''-5_a.md'', plain '''')])))
      = [''-5_a.md'', ''-4_x.md'']
   \<and> py_int (extract_id_from_filename ''-4_x.md'') = Some (- 4)
   \<and> \<not> (0::int) < - 4"
proof -
  have "creatable ''x''" by (simp add: creatable_def)
  moreover have "list_note_files (notes_dir (new_notes [(''x'', ''T'')] (window [(''-5_a.md'', plain '''')])))
      = [''-5_a.md'', ''-4_x.md'']" by code_simp
  moreover have "py_int (extract_id_from_filename ''-4_x.md'') = Some (- 4)" by code_simp
  ultimately show ?thesis by simp
qed

text \<open>
  Claim C7, as the code has it. A cancelled title dialog and an empty title create
  nothing, show nothing and raise nothing. Every title that is not empty and has no path
  separator and no NUL, blank titles included, creates one new note file, named by the
  next ID and the slug, that holds the template.
\<close>

theorem new_note_title_cases:
  "new_note None now a = (a, [], None)
   \<and> new_note (Some []) now a = (a, [], None)
   \<and> (creatable title \<longrightarrow>
        notes_dir (fst (new_note (Some title) now a)) =
          notes_dir a @ [(generate_filename (get_next_id (notes_dir a)) title,
                          plain (note_template title (get_next_id (notes_dir a)) now))]
        \<and> generate_filename (get_next_id (notes_dir a)) title \<notin> fst ` set (notes_dir a))"
proof -
  have "generate_filename (get_next_id (notes_dir a)) title \<notin> fst ` set (notes_dir a)"
    using fresh_name [of "notes_dir a" title]
    by (simp add: get_next_id_py_str map_of_eq_None_iff)
  then show ?thesis
    by (simp add: new_note_store) (simp add: new_note_def)
qed

text \<open>
  The title \<open>My note\<close> next to note 1 creates \<open>2_My_note.md\<close>.
\<close>

theorem new_note_title_cases_witness:
  "creatable ''My note''
   \<and> notes_dir (fst (new_note (Some ''My note'') ''T'' (window [(''1_a.md'', plain '''')])))
      = [(''1_a.md'', plain ''''), (''2_My_note.md'', plain (note_template ''My note'' ''2'' ''T''))]"
proof -
  let ?a = "window [(''1_a.md'', plain '''')]"
  have c: "creatable ''My note''" by (simp add: creatable_def)
  have n: "get_next_id (notes_dir ?a) = ''2''" by code_simp
  have g: "generate_filename ''2'' ''My note'' = ''2_My_note.md''" by code_simp
  from new_note_title_cases [of "''T''" ?a "''My note''"] c show ?thesis
    unfolding n g by (simp add: window_def)
qed

text \<open>
  Claim C7 as stated fails: a title of three blanks in an empty directory raises nothing
  and creates the note file \<open>1_.md\<close>.
\<close>

theorem new_note_blank_title_counterexample:
  "notes_dir (fst (new_note (Some ''   '') ''T'' (window [])))
     = [(''1_.md'', plain (note_template ''   '' ''1'' ''T''))]
   \<and> snd (new_note (Some ''   '') ''T'' (window [])) = ([Info_Note_Created ''1_.md''], None)"
  by code_simp

section \<open>Search\<close>

lemma search_filter_iff:
  "search_filter st k f \<longleftrightarrow>
     (\<exists>text. fs_read st f = Inr text \<and> (sublist k (str_lower f) \<or> sublist k (str_lower text)))"
  by (cases "fs_read st f") (simp_all add: search_filter_def str_in_def)

lemma refresh_list_filtered:
  assumes "\<forall>f \<in> set (list_note_files (notes_dir a)). py_int (before_underscore f) \<noteq> None"
  shows "\<exists>fs. refresh_list None a = (None, a\<lparr>sidebar := fs\<rparr>)
           \<and> refresh_list (Some p) a = (None, a\<lparr>sidebar := filter p fs\<rparr>)"
proof -
  from assms have "list_all (\<lambda>x. py_int (before_underscore x) \<noteq> None) (list_note_files (notes_dir a))"
    by (simp add: list_all_iff)
  then obtain fs where "sort_by_id (list_note_files (notes_dir a)) = Inr fs"
    using sort_by_id_ok by blast
  then have "refresh_list None a = (None, a\<lparr>sidebar := fs\<rparr>)
      \<and> refresh_list (Some p) a = (None, a\<lparr>sidebar := filter p fs\<rparr>)"
    by (simp add: refresh_list_def)
  then show ?thesis by (rule exI)
qed

text \<open>
  Claim C9, as the code has it, for a directory whose note files all have integer prefixes
  (else the listing raises). The keyword is stripped of surrounding blanks and lowered.
  When nothing is left, the search is the plain listing. Otherwise the search shows, in
  listing order, exactly the notes that can be read and whose lowered filename or lowered
  text contains the keyword.
\<close>

theorem search_notes_result:
  assumes "\<forall>f \<in> set (list_note_files (notes_dir a)). py_int (before_underscore f) \<noteq> None"
  shows "(str_strip kw = [] \<longrightarrow> search_notes kw a = refresh_list None a)
       \<and> (str_strip kw \<noteq> [] \<longrightarrow>
           (\<exists>fs. refresh_list None a = (None, a\<lparr>sidebar := fs\<rparr>)
              \<and> search_notes kw a =
                  (None, a\<lparr>sidebar := filter (\<lambda>f. \<exists>text. fs_read (notes_dir a) f = Inr text
                       \<and> (sublist (str_lower (str_strip kw)) (str_lower f)
                          \<or> sublist (str_lower (str_strip kw)) (str_lower text))) fs\<rparr>)))"
proof (intro conjI impI)
  assume "str_strip kw = []"
  then show "search_notes kw a = refresh_list None a"
    by (simp add: search_notes_def str_lower_def)
next
  assume n: "str_strip kw \<noteq> []"
  let ?k = "str_lower (str_strip kw)"
  from refresh_list_filtered [OF assms, of "search_filter (notes_dir a) ?k"] obtain fs where
    1: "refresh_list None a = (None, a\<lparr>sidebar := fs\<rparr>)"
    and 2: "refresh_list (Some (search_filter (notes_dir a) ?k)) a
              = (None, a\<lparr>sidebar := filter (search_filter (notes_dir a) ?k) fs\<rparr>)"
    by blast
  from n 2 have "search_notes kw a = (None, a\<lparr>sidebar := filter (search_filter (notes_dir a) ?k) fs\<rparr>)"
    by (simp add: search_notes_def str_lower_def Let_def)
  with 1 show "\<exists>fs. refresh_list None a = (None, a\<lparr>sidebar := fs\<rparr>)
              \<and> search_notes kw a =
                  (None, a\<lparr>sidebar := filter (\<lambda>f. \<exists>text. fs_read (notes_dir a) f = Inr text
                       \<and> (sublist ?k (str_lower f) \<or> sublist ?k (str_lower text))) fs\<rparr>)"
    by (auto simp: search_filter_iff [abs_def])
qed

text \<open>
  The keyword \<open>ZETTEL\<close> finds the note whose text has \<open>zettelkasten\<close> and the note named
  \<open>2_Zettel.md\<close>; a keyword of blanks lists all notes.
\<close>

theorem search_notes_result_witness:
  "list_all (\<lambda>f. py_int (before_underscore f) \<noteq> None)
     (list_note_files (notes_dir (window
        [(''3_c.md'', plain ''none''), (''1_a.md'', plain ''my zettelkasten''),
         (''2_Zettel.md'', plain '''')])))
   \<and> str_strip ''ZETTEL'' \<noteq> []
   \<and> sidebar (snd (search_notes ''ZETTEL'' (window
        [(''3_c.md'', plain ''none''), (''1_a.md'', plain ''my zettelkasten''),
         (''2_Zettel.md'', plain '''')]))) = [''1_a.md'', ''2_Zettel.md'']
   \<and> search_notes ''  '' (window
        [(''3_c.md'', plain ''none''), (''1_a.md'', plain ''my zettelkasten''),
         (''2_Zettel.md'', plain '''')])
      = refresh_list None (window
        [(''3_c.md'', plain ''none''), (''1_a.md'', plain ''my zettelkasten''),
         (''2_Zettel.md'', plain '''')])"
proof -
  let ?a = "window [(''3_c.md'', plain ''none''), (''1_a.md'', plain ''my zettelkasten''),
         (''2_Zettel.md'', plain '''')]"
  have h: "\<forall>f \<in> set (list_note_files (notes_dir ?a)). py_int (before_underscore f) \<noteq> None"
    by code_simp
  have s: "str_strip ''ZETTEL'' \<noteq> []" by code_simp
  have b: "str_strip ''  '' = []" by code_simp
  have e: "sidebar (snd (search_notes ''ZETTEL'' ?a)) = [''1_a.md'', ''2_Zettel.md'']"
    by code_simp
  from search_notes_result [OF h, of "''  ''"] b
  have "search_notes ''  '' ?a = refresh_list None ?a" by blast
  with h s e show ?thesis by (simp add: list_all_iff)
qed

text \<open>
  Claim C9 as stated fails twice. The keyword of a blank and the letter a is no substring
  of the filename or the text of the note, yet the note is found, because the blank is
  stripped. And a note that cannot be read is not found although its filename contains
  the keyword.
\<close>

theorem search_notes_counterexample:
  "sidebar (snd (search_notes '' a'' (window [(''1_x.md'', plain ''cat'')]))) = [''1_x.md'']
   \<and> \<not> sublist (str_lower '' a'') (str_lower ''1_x.md'')
   \<and> \<not> sublist (str_lower '' a'') (str_lower ''cat'')
   \<and> sidebar (snd (search_notes ''zettel'' (window
        [(''1_zettel.md'', unreadable ''x'')]))) = []
   \<and> sublist (str_lower ''zettel'') (str_lower ''1_zettel.md'')"
  by code_simp

section \<open>Replacing a token\<close>







section \<open>Deleting a note\<close>



























end
